theory Spec2Isabelle
  imports Main
begin

section \<open>The model\<close>

subsection \<open>JavaScript values shared by the middleware\<close>

text \<open>
  A JavaScript string is modelled as a HOL \<open>string\<close>: a list of code units below 256.
  A property that may be \<open>undefined\<close> is an \<open>option\<close>, with \<open>None\<close> for
  \<open>undefined\<close>.  The operator \<open>a || b\<close> yields \<open>a\<close> when \<open>a\<close> is truthy and
  \<open>b\<close> otherwise; for such properties the falsy values are \<open>undefined\<close> and the empty
  string.
\<close>

definition truthy :: "string option \<Rightarrow> bool" where
  "truthy a = (case a of None \<Rightarrow> False | Some s \<Rightarrow> s \<noteq> [])"

definition js_or :: "string option \<Rightarrow> string option \<Rightarrow> string option" where
  "js_or a b = (if truthy a then a else b)"

text \<open>
  The fields of an Express request that the middleware reads.  \<open>req.connection\<close> and
  \<open>req.socket\<close> are objects on every incoming message; their \<open>remoteAddress\<close> may be
  \<open>undefined\<close>.
\<close>

record request =
  ip :: "string option"
  xForwardedFor :: "string option"
  xRealIp :: "string option"
  connectionRemoteAddress :: "string option"
  socketRemoteAddress :: "string option"
  connectionSocketRemoteAddress :: "string option"

subsection \<open>middleware/rateLimiter.js\<close>

record config =
  windowMs :: int
  maxRequests :: int

definition RATE_LIMIT_CONFIG :: config where
  "RATE_LIMIT_CONFIG = \<lparr>windowMs = 10 * 60 * 1000, maxRequests = 1000\<rparr>"

record clientData =
  requests :: "int list"
  count :: int
  resetTime :: int

text \<open>\<open>rateStore\<close> is a \<open>Map\<close> keyed by \<open>clientIP\<close>, which may itself be \<open>undefined\<close>.\<close>

type_synonym rateStore = "string option \<rightharpoonup> clientData"

record rateHeaders =
  xRateLimitLimit :: int
  xRateLimitRemaining :: int
  xRateLimitReset :: int
  retryAfterHeader :: "int option"

record denial =
  retryAfter :: int
  limitD :: int
  windowMsD :: int

datatype outcome = Next rateHeaders | Status429 rateHeaders denial

text \<open>\<open>Math.ceil(x / d)\<close> on integers, for a positive divisor.\<close>

definition ceil_div :: "int \<Rightarrow> int \<Rightarrow> int" where
  "ceil_div x d = - ((- x) div d)"

text \<open>
  \<open>cleanupOldEntries\<close>: every record with no request, or whose latest request is older
  than the cutoff, is deleted.  \<open>now2\<close> is the clock read inside the sweep.
\<close>

definition stale :: "clientData \<Rightarrow> int \<Rightarrow> bool" where
  "stale d cutoff = (case requests d of [] \<Rightarrow> True | t # ts \<Rightarrow> fold max ts t < cutoff)"

definition cleanupOldEntries :: "config \<Rightarrow> rateStore \<Rightarrow> int \<Rightarrow> rateStore" where
  "cleanupOldEntries cfg store now2 =
     (let cutoff = now2 - windowMs cfg
      in (\<lambda>k. case store k of
                 None \<Rightarrow> None
               | Some d \<Rightarrow> if stale d cutoff then None else Some d))"

definition clientKey :: "request \<Rightarrow> string option" where
  "clientKey req = js_or (js_or (ip req) (connectionRemoteAddress req)) (socketRemoteAddress req)"

text \<open>
  \<open>rateLimiter\<close>, with the module state \<open>rateStore\<close> passed in and returned.  \<open>now\<close> is
  the value of \<open>Date.now()\<close>, \<open>sweep\<close> is the outcome of the draw
  \<open>Math.random() < 0.01\<close>, and \<open>now2\<close> the clock read by the sweep.
\<close>

definition rateLimiter ::
  "config \<Rightarrow> rateStore \<Rightarrow> request \<Rightarrow> int \<Rightarrow> bool \<Rightarrow> int \<Rightarrow> outcome \<times> rateStore" where
  "rateLimiter cfg store req now sweep now2 =
     (let clientIP = clientKey req;
          windowStart = now - windowMs cfg;
          clientData0 = (case store clientIP of
                           None \<Rightarrow> \<lparr>requests = [], count = 0, resetTime = now + windowMs cfg\<rparr>
                         | Some d \<Rightarrow> d);
          kept = filter (\<lambda>timestamp. timestamp > windowStart) (requests clientData0);
          clientData1 = clientData0\<lparr>requests := kept, count := int (length kept)\<rparr>;
          store1 = store(clientIP \<mapsto> clientData1)
      in if count clientData1 \<ge> maxRequests cfg then
           (let resetTime = ceil_div (windowStart + windowMs cfg - now) 1000
            in (Status429
                  \<lparr>xRateLimitLimit = maxRequests cfg, xRateLimitRemaining = 0,
                   xRateLimitReset = windowStart + windowMs cfg,
                   retryAfterHeader = Some resetTime\<rparr>
                  \<lparr>retryAfter = resetTime, limitD = maxRequests cfg, windowMsD = windowMs cfg\<rparr>,
                store1))
         else
           (let pushed = kept @ [now];
                clientData2 = clientData1\<lparr>requests := pushed, count := int (length pushed)\<rparr>;
                store2 = store1(clientIP \<mapsto> clientData2);
                remaining = max 0 (maxRequests cfg - count clientData2)
            in (Next
                  \<lparr>xRateLimitLimit = maxRequests cfg, xRateLimitRemaining = remaining,
                   xRateLimitReset = windowStart + windowMs cfg,
                   retryAfterHeader = None\<rparr>,
                if sweep then cleanupOldEntries cfg store2 now2 else store2)))"

definition resetRateLimit :: "rateStore \<Rightarrow> string option \<Rightarrow> bool \<times> rateStore" where
  "resetRateLimit store k = (store k \<noteq> None, store(k := None))"

text \<open>The timestamps held for a key; a key without a record holds none.\<close>

definition requests_of :: "rateStore \<Rightarrow> string option \<Rightarrow> int list" where
  "requests_of store k = (case store k of None \<Rightarrow> [] | Some d \<Rightarrow> requests d)"

definition is_denied :: "outcome \<Rightarrow> bool" where
  "is_denied r = (case r of Next h \<Rightarrow> False | Status429 h d \<Rightarrow> True)"

text \<open>
  A sequence of calls of the middleware, each with its request, its clock value, the
  outcome of its random draw and the clock value of its sweep, run from a given store.
\<close>

type_synonym call = "request \<times> int \<times> bool \<times> int"

fun run :: "config \<Rightarrow> rateStore \<Rightarrow> call list \<Rightarrow> rateStore" where
  "run cfg store [] = store"
| "run cfg store ((req, now, sweep, now2) # cs) =
     run cfg (snd (rateLimiter cfg store req now sweep now2)) cs"

text \<open>
  The instants at which the calls of a run were admitted for key \<open>k\<close>, in order.
\<close>

fun admitted :: "config \<Rightarrow> rateStore \<Rightarrow> call list \<Rightarrow> string option \<Rightarrow> int list" where
  "admitted cfg store [] k = []"
| "admitted cfg store ((req, now, sweep, now2) # cs) k =
     (if clientKey req = k \<and> \<not> is_denied (fst (rateLimiter cfg store req now sweep now2))
      then [now] else [])
     @ admitted cfg (snd (rateLimiter cfg store req now sweep now2)) cs k"

text \<open>
  A run whose clock never goes back: every \<open>Date.now()\<close> is at least the one read before
  it (\<open>t\<close> is the last reading before the run).  \<open>end_clock\<close> is the last reading
  of the run.
\<close>

fun clock_ok :: "int \<Rightarrow> call list \<Rightarrow> bool" where
  "clock_ok t [] = True"
| "clock_ok t ((req, now, sweep, now2) # cs) =
     (t \<le> now \<and> (if sweep then now \<le> now2 \<and> clock_ok now2 cs else clock_ok now cs))"

fun end_clock :: "int \<Rightarrow> call list \<Rightarrow> int" where
  "end_clock t [] = t"
| "end_clock t ((req, now, sweep, now2) # cs) = end_clock (if sweep then now2 else now) cs"

text \<open>No record of the store holds more than \<open>maxRequests\<close> timestamps.\<close>

definition bounded :: "config \<Rightarrow> rateStore \<Rightarrow> bool" where
  "bounded cfg store = (\<forall>k d. store k = Some d \<longrightarrow> int (length (requests d)) \<le> maxRequests cfg)"

text \<open>A request whose only address is \<open>req.ip\<close>, and a small configuration, for examples.\<close>

definition probe :: request where
  "probe = \<lparr>ip = Some ''10.0.0.9'', xForwardedFor = None, xRealIp = None,
     connectionRemoteAddress = None, socketRemoteAddress = None,
     connectionSocketRemoteAddress = None\<rparr>"

definition smallConfig :: config where
  "smallConfig = \<lparr>windowMs = 1000, maxRequests = 2\<rparr>"

subsection \<open>Regular expressions and string methods\<close>

text \<open>
  The regular expressions of the source are values of \<open>regex\<close>, matched as a
  backtracking matcher does: \<open>ms r s\<close> lists, in the order in which backtracking
  reaches them, what is left of \<open>s\<close> after each way of matching \<open>r\<close> at its start.
  \<open>Star\<close> is the greedy \<open>*\<close>, \<open>Lazy\<close> is \<open>*?\<close>, \<open>Opt\<close> is \<open>?\<close>, \<open>Eol\<close> is \<open>$\<close>; an
  iteration of a star that consumes nothing is rejected.
\<close>

datatype regex =
    Eps
  | Eol
  | Sym "char \<Rightarrow> bool"
  | Seq regex regex
  | Opt regex
  | Star regex
  | Lazy regex

function ms :: "regex \<Rightarrow> string \<Rightarrow> string list" where
  "ms Eps s = [s]"
| "ms Eol s = (if s = [] then [s] else [])"
| "ms (Sym p) s = (case s of [] \<Rightarrow> [] | c # cs \<Rightarrow> if p c then [cs] else [])"
| "ms (Seq r1 r2) s = concat (map (ms r2) (ms r1 s))"
| "ms (Opt r) s = ms r s @ [s]"
| "ms (Star r) s =
     concat (map (\<lambda>t. if length t < length s then ms (Star r) t else []) (ms r s)) @ [s]"
| "ms (Lazy r) s =
     s # concat (map (\<lambda>t. if length t < length s then ms (Lazy r) t else []) (ms r s))"
  by pat_completeness auto
termination
  by (relation "measures [\<lambda>(r, s). size r, \<lambda>(r, s). length s]") auto

definition chr :: "char \<Rightarrow> regex" where
  "chr a = Sym (\<lambda>c. c = a)"

definition Plus :: "regex \<Rightarrow> regex" where
  "Plus r = Seq r (Star r)"

text \<open>\<open>r{n}\<close>, then \<open>r{n,m}\<close> and \<open>r{n,}\<close> (greedy).\<close>

primrec rep :: "nat \<Rightarrow> regex \<Rightarrow> regex" where
  "rep 0 r = Eps"
| "rep (Suc n) r = Seq r (rep n r)"

primrec upto_rep :: "nat \<Rightarrow> regex \<Rightarrow> regex" where
  "upto_rep 0 r = Eps"
| "upto_rep (Suc n) r = Opt (Seq r (upto_rep n r))"

definition range_rep :: "nat \<Rightarrow> nat \<Rightarrow> regex \<Rightarrow> regex" where
  "range_rep n m r = Seq (rep n r) (upto_rep (m - n) r)"

definition at_least_rep :: "nat \<Rightarrow> regex \<Rightarrow> regex" where
  "at_least_rep n r = Seq (rep n r) (Star r)"

text \<open>The classes \<open>\d\<close>, \<open>\w\<close>, \<open>\s\<close> and the line terminators that \<open>.\<close> excludes.\<close>

definition digit :: "char \<Rightarrow> bool" where
  "digit c = (c \<in> set ''0123456789'')"

definition word_char :: "char \<Rightarrow> bool" where
  "word_char c =
     (c \<in> set ''abcdefghijklmnopqrstuvwxyzABCDEFGHIJKLMNOPQRSTUVWXYZ0123456789_'')"

definition whitespace :: "char \<Rightarrow> bool" where
  "whitespace c =
     (c \<in> set [CHR 0x09, CHR 0x0A, CHR 0x0B, CHR 0x0C, CHR 0x0D, CHR '' '', CHR 0xA0])"

definition line_terminator :: "char \<Rightarrow> bool" where
  "line_terminator c = (c = CHR 0x0A \<or> c = CHR 0x0D)"

text \<open>
  A literal under the flag \<open>i\<close>: two characters match when their upper-case forms
  agree; only the letters \<open>a\<close> to \<open>z\<close> have one that differs from themselves.
\<close>

definition to_upper :: "char \<Rightarrow> char" where
  "to_upper c =
     (case map_of (zip ''abcdefghijklmnopqrstuvwxyz'' ''ABCDEFGHIJKLMNOPQRSTUVWXYZ'') c of
        None \<Rightarrow> c
      | Some u \<Rightarrow> u)"

primrec lit_ci :: "string \<Rightarrow> regex" where
  "lit_ci [] = Eps"
| "lit_ci (a # as) = Seq (Sym (\<lambda>c. to_upper c = to_upper a)) (lit_ci as)"

text \<open>
  \<open>RegExp.prototype.test\<close> for a pattern that starts with \<open>^\<close>: the search can succeed
  at index 0 only.
\<close>

definition test :: "regex \<Rightarrow> string \<Rightarrow> bool" where
  "test r s = (ms r s \<noteq> [])"

text \<open>
  \<open>String.prototype.replace\<close> with a pattern under the flag \<open>g\<close> and a replacement
  string without \<open>$\<close>: the matches are found from left to right, each search starting
  where the last match ended (one further on after an empty match).
\<close>

function replace_all :: "regex \<Rightarrow> string \<Rightarrow> string \<Rightarrow> string" where
  "replace_all r new [] = (if ms r [] = [] then [] else new)"
| "replace_all r new (c # cs) =
     (case ms r (c # cs) of
        [] \<Rightarrow> c # replace_all r new cs
      | t # ts \<Rightarrow>
          if length t < length (c # cs) then new @ replace_all r new t
          else new @ c # replace_all r new cs)"
  by pat_completeness auto
termination
  by (relation "measure (\<lambda>(r, new, s). length s)") auto

text \<open>\<open>split(sep)\<close> for a one-character separator, and \<open>trim()\<close>.\<close>

fun split :: "char \<Rightarrow> string \<Rightarrow> string list" where
  "split sep [] = [[]]"
| "split sep (c # cs) =
     (if c = sep then [] # split sep cs
      else (case split sep cs of [] \<Rightarrow> [[c]] | p # ps \<Rightarrow> (c # p) # ps))"

definition trim :: "string \<Rightarrow> string" where
  "trim s = rev (dropWhile whitespace (rev (dropWhile whitespace s)))"

subsection \<open>middleware/ipBlacklist.js\<close>

text \<open>
  The two module-level sets.  No function of the module changes the whitelist.
\<close>

record guard =
  blacklistedIPs :: "string set"
  whitelistedIPs :: "string set"

definition initialGuard :: guard where
  "initialGuard =
     \<lparr>blacklistedIPs = {''192.168.1.100'', ''10.0.0.5'', ''127.0.0.2''},
      whitelistedIPs = {''127.0.0.1'', ''::1'', ''::ffff:127.0.0.1''}\<rparr>"

text \<open>
  \<open>getClientIP\<close>.  The optional chain on the forwarded-for header is \<open>undefined\<close> when
  the header is; \<open>split(',')[0]\<close> is the text before the first comma.
\<close>

definition forwardedFirst :: "request \<Rightarrow> string option" where
  "forwardedFirst req =
     (case xForwardedFor req of
        None \<Rightarrow> None
      | Some h \<Rightarrow> (case split CHR '','' h of [] \<Rightarrow> None | p # ps \<Rightarrow> Some (trim p)))"

definition getClientIP :: "request \<Rightarrow> string" where
  "getClientIP req =
     (case js_or (js_or (js_or (js_or (js_or (js_or
             (ip req)
             (forwardedFirst req))
             (xRealIp req))
             (connectionRemoteAddress req))
             (socketRemoteAddress req))
             (connectionSocketRemoteAddress req))
             (Some ''0.0.0.0'') of
        None \<Rightarrow> ''0.0.0.0''
      | Some a \<Rightarrow> a)"

text \<open>The guard calls \<open>next()\<close> or answers with status 403.\<close>

datatype guardResult = Pass | Status403

definition ipBlacklist :: "guard \<Rightarrow> request \<Rightarrow> guardResult" where
  "ipBlacklist g req =
     (let clientIP = getClientIP req
      in if clientIP \<in> whitelistedIPs g then Pass
         else if clientIP \<in> blacklistedIPs g then Status403
         else Pass)"

text \<open>
  The errors thrown by the administrative functions, by their messages:
  \<open>Invalid IP address\<close>, \<open>Invalid IP address format\<close> and
  \<open>Cannot blacklist whitelisted IP\<close>.
\<close>

datatype error = InvalidAddress | InvalidAddressFormat | WhitelistConflict

text \<open>The patterns \<open>^(\d{1,3}\.){3}\d{1,3}$\<close> and \<open>^[0-9a-fA-F:]+$\<close>.\<close>

definition ipv4Regex :: regex where
  "ipv4Regex =
     Seq (rep 3 (Seq (range_rep 1 3 (Sym digit)) (chr CHR ''.'')))
       (Seq (range_rep 1 3 (Sym digit)) Eol)"

definition ipv6Regex :: regex where
  "ipv6Regex = Seq (Plus (Sym (\<lambda>c. c \<in> set ''0123456789abcdefABCDEF:''))) Eol"

text \<open>
  \<open>addToBlacklist\<close> and \<open>removeFromBlacklist\<close> on an address string (for a string,
  the first guard fails exactly on the empty one).  Both return the sets as they are
  after the call; a throw leaves them as they were.
\<close>

definition addToBlacklist :: "guard \<Rightarrow> string \<Rightarrow> (error + bool) \<times> guard" where
  "addToBlacklist g a =
     (if a = [] then (Inl InvalidAddress, g)
      else if \<not> test ipv4Regex a \<and> \<not> test ipv6Regex a then (Inl InvalidAddressFormat, g)
      else if a \<in> whitelistedIPs g then (Inl WhitelistConflict, g)
      else (let wasAdded = (a \<notin> blacklistedIPs g)
            in (Inr wasAdded, g\<lparr>blacklistedIPs := insert a (blacklistedIPs g)\<rparr>)))"

definition removeFromBlacklist :: "guard \<Rightarrow> string \<Rightarrow> (error + bool) \<times> guard" where
  "removeFromBlacklist g a =
     (if a = [] then (Inl InvalidAddress, g)
      else (let wasRemoved = (a \<in> blacklistedIPs g)
            in (Inr wasRemoved, g\<lparr>blacklistedIPs := blacklistedIPs g - {a}\<rparr>)))"

definition isBlacklisted :: "guard \<Rightarrow> string \<Rightarrow> bool" where
  "isBlacklisted g a = (a \<in> blacklistedIPs g)"

text \<open>Two requests for examples: a local one, and one behind a proxy.\<close>

definition localRequest :: request where
  "localRequest = \<lparr>ip = Some ''127.0.0.1'', xForwardedFor = None, xRealIp = None,
     connectionRemoteAddress = None, socketRemoteAddress = None,
     connectionSocketRemoteAddress = None\<rparr>"

definition proxied :: request where
  "proxied = \<lparr>ip = None, xForwardedFor = Some '' 203.0.113.7 , 10.0.0.1'',
     xRealIp = Some ''198.51.100.2'', connectionRemoteAddress = Some ''10.0.0.1'',
     socketRemoteAddress = Some ''10.0.0.1'', connectionSocketRemoteAddress = None\<rparr>"

subsection \<open>middleware/sanitizer.js\<close>

text \<open>
  The three patterns of \<open>sanitizeString\<close>, all under the flags \<open>g\<close> and \<open>i\<close>:
  \<open><script[^>]*>.*?<\/script>\<close>, \<open>on\w+\s*=\s*["'][^"']*["']\<close> and \<open>javascript:\<close>.
  The double quote is the character \<open>0x22\<close> and the single quote \<open>0x27\<close>.
\<close>

definition quote :: "char \<Rightarrow> bool" where
  "quote c = (c = CHR 0x22 \<or> c = CHR 0x27)"

definition scriptRegex :: regex where
  "scriptRegex =
     Seq (lit_ci ''<script'')
       (Seq (Star (Sym (\<lambda>c. c \<noteq> CHR ''>'')))
         (Seq (chr CHR ''>'')
           (Seq (Lazy (Sym (\<lambda>c. \<not> line_terminator c)))
             (lit_ci ''</script>''))))"

definition handlerRegex :: regex where
  "handlerRegex =
     Seq (lit_ci ''on'')
       (Seq (Plus (Sym word_char))
         (Seq (Star (Sym whitespace))
           (Seq (chr CHR ''='')
             (Seq (Star (Sym whitespace))
               (Seq (Sym quote)
                 (Seq (Star (Sym (\<lambda>c. \<not> quote c)))
                   (Sym quote)))))))"

definition javascriptRegex :: regex where
  "javascriptRegex = lit_ci ''javascript:''"

text \<open>
  \<open>sanitizeString\<close> on a string: the three removals, then the six replacements of one
  character by its entity, \<open>&\<close> first.
\<close>

definition sanitizeString :: "string \<Rightarrow> string" where
  "sanitizeString str =
     (let str1 = replace_all scriptRegex [] str;
          str2 = replace_all handlerRegex [] str1;
          str3 = replace_all javascriptRegex [] str2
      in replace_all (chr CHR ''/'') ''&#x2F;''
           (replace_all (chr CHR 0x27) ''&#x27;''
             (replace_all (chr CHR 0x22) ''&quot;''
               (replace_all (chr CHR ''>'') ''&gt;''
                 (replace_all (chr CHR ''<'') ''&lt;''
                   (replace_all (chr CHR ''&'') ''&amp;'' str3))))))"

text \<open>
  The values the sanitizer walks.  A number is never inspected, so its type is a
  parameter.  An object is the list of its own enumerable properties in the order in
  which \<open>Object.entries\<close> lists them; the keys of an object are distinct.
\<close>

datatype 'n jsval =
    JUndefined
  | JNull
  | JBool bool
  | JNum 'n
  | JStr string
  | JArr "'n jsval list"
  | JObj "(string \<times> 'n jsval) list"

text \<open>
  The assignment \<open>sanitized[key] = v\<close> on an object that began as the literal \<open>{}\<close>:
  it overwrites the property \<open>key\<close>, or appends it.  For the key \<open>__proto__\<close> it does
  neither: the assignment reaches the accessor that \<open>Object.prototype\<close> defines under
  this name, which replaces the prototype of \<open>sanitized\<close> when \<open>v\<close> is an object or
  \<open>null\<close> and does nothing otherwise.  In both cases \<open>sanitized\<close> gains no own
  property, and its own properties are all that the model keeps of an object.
\<close>

fun assign :: "(string \<times> 'v) list \<Rightarrow> string \<Rightarrow> 'v \<Rightarrow> (string \<times> 'v) list" where
  "assign [] k v = [(k, v)]"
| "assign ((k', v') # es) k v = (if k' = k then (k', v) # es else (k', v') # assign es k v)"

definition set_property :: "(string \<times> 'v) list \<Rightarrow> string \<Rightarrow> 'v \<Rightarrow> (string \<times> 'v) list" where
  "set_property obj k v = (if k = ''__proto__'' then obj else assign obj k v)"

text \<open>\<open>startsWith\<close> and \<open>includes\<close> with a string of one character.\<close>

definition startsWith :: "string \<Rightarrow> char \<Rightarrow> bool" where
  "startsWith s a = (case s of [] \<Rightarrow> False | c # cs \<Rightarrow> c = a)"

definition includes_char :: "string \<Rightarrow> char \<Rightarrow> bool" where
  "includes_char s a = (a \<in> set s)"

text \<open>
  \<open>deepSanitize\<close>, in the order of its tests: \<open>null\<close> and \<open>undefined\<close>, arrays, objects
  (the loop over \<open>Object.entries\<close>, which skips an entry or assigns it to
  \<open>sanitized\<close>), strings, and every other value as it is.
\<close>

fun deepSanitize :: "'n jsval \<Rightarrow> 'n jsval" where
  "deepSanitize JNull = JNull"
| "deepSanitize JUndefined = JUndefined"
| "deepSanitize (JArr items) = JArr (map deepSanitize items)"
| "deepSanitize (JObj entries) =
     JObj (fold (\<lambda>e sanitized.
             (let cleanKey = sanitizeString (fst e)
              in if startsWith cleanKey CHR ''$'' \<or> includes_char cleanKey CHR ''.'' \<or> cleanKey \<noteq> fst e
                 then sanitized
                 else set_property sanitized cleanKey (deepSanitize (snd e))))
           entries [])"
| "deepSanitize (JStr s) = JStr (sanitizeString s)"
| "deepSanitize (JBool b) = JBool b"
| "deepSanitize (JNum n) = JNum n"

text \<open>
  Values that the cleaning rules have no reason to alter.  A plain string holds none of
  the characters \<open>& < > " ' /\<close> and no \<open>javascript:\<close> in any case of letters (the other
  two patterns need a \<open><\<close> or a quote).  A plain value has plain strings and plain keys
  that neither start with \<open>$\<close> nor contain a dot.  \<open>proto_free\<close> says that no key is
  \<open>__proto__\<close>.
\<close>

definition starts_ci :: "string \<Rightarrow> string \<Rightarrow> bool" where
  "starts_ci w s = (length w \<le> length s \<and> map to_upper (take (length w) s) = map to_upper w)"

fun occurs_ci :: "string \<Rightarrow> string \<Rightarrow> bool" where
  "occurs_ci w [] = (w = [])"
| "occurs_ci w (c # cs) = (starts_ci w (c # cs) \<or> occurs_ci w cs)"

definition markup_special :: "char \<Rightarrow> bool" where
  "markup_special c = (c \<in> set [CHR ''&'', CHR ''<'', CHR ''>'', CHR 0x22, CHR 0x27, CHR ''/''])"

definition plain_string :: "string \<Rightarrow> bool" where
  "plain_string s = (list_all (\<lambda>c. \<not> markup_special c) s \<and> \<not> occurs_ci ''javascript:'' s)"

definition plain_key :: "string \<Rightarrow> bool" where
  "plain_key k = (plain_string k \<and> \<not> startsWith k CHR ''$'' \<and> \<not> includes_char k CHR ''.'')"

fun plain_value :: "'n jsval \<Rightarrow> bool" where
  "plain_value (JStr s) = plain_string s"
| "plain_value (JArr items) = list_all plain_value items"
| "plain_value (JObj entries) =
     (distinct (map fst entries)
      \<and> list_all (\<lambda>e. plain_key (fst e) \<and> plain_value (snd e)) entries)"
| "plain_value JUndefined = True"
| "plain_value JNull = True"
| "plain_value (JBool b) = True"
| "plain_value (JNum n) = True"

fun proto_free :: "'n jsval \<Rightarrow> bool" where
  "proto_free (JArr items) = list_all proto_free items"
| "proto_free (JObj entries) =
     list_all (\<lambda>e. fst e \<noteq> ''__proto__'' \<and> proto_free (snd e)) entries"
| "proto_free (JStr s) = True"
| "proto_free JUndefined = True"
| "proto_free JNull = True"
| "proto_free (JBool b) = True"
| "proto_free (JNum n) = True"

subsection \<open>middleware/sanitizer.js: the field validator\<close>

text \<open>
  The patterns of \<open>validators\<close>: \<open>^[^\s@]+@[^\s@]+\.[^\s@]+$\<close>,
  \<open>^\+?[\d\s\-\(\)]{10,}$\<close>, \<open>^[a-zA-Z0-9]+$\<close> and \<open>^[a-zA-Z\s]{2,50}$\<close>.
\<close>

definition emailRegex :: regex where
  "emailRegex =
     Seq (Plus (Sym (\<lambda>c. \<not> whitespace c \<and> c \<noteq> CHR ''@'')))
       (Seq (chr CHR ''@'')
         (Seq (Plus (Sym (\<lambda>c. \<not> whitespace c \<and> c \<noteq> CHR ''@'')))
           (Seq (chr CHR ''.'')
             (Seq (Plus (Sym (\<lambda>c. \<not> whitespace c \<and> c \<noteq> CHR ''@''))) Eol))))"

definition phoneRegex :: regex where
  "phoneRegex =
     Seq (Opt (chr CHR ''+''))
       (Seq (at_least_rep 10 (Sym (\<lambda>c. digit c \<or> whitespace c \<or> c \<in> set ''-()''))) Eol)"

definition alphanumericRegex :: regex where
  "alphanumericRegex =
     Seq (Plus (Sym (\<lambda>c. c \<in> set
       ''abcdefghijklmnopqrstuvwxyzABCDEFGHIJKLMNOPQRSTUVWXYZ0123456789''))) Eol"

definition nameRegex :: regex where
  "nameRegex =
     Seq (range_rep 2 50 (Sym (\<lambda>c. c \<in> set
       ''abcdefghijklmnopqrstuvwxyzABCDEFGHIJKLMNOPQRSTUVWXYZ'' \<or> whitespace c))) Eol"

datatype validatorName = VEmail | VPhoneNumber | VAlphanumeric | VName

definition validators :: "validatorName \<Rightarrow> string \<Rightarrow> bool" where
  "validators t v =
     (case t of
        VEmail \<Rightarrow> test emailRegex v
      | VPhoneNumber \<Rightarrow> test phoneRegex v
      | VAlphanumeric \<Rightarrow> test alphanumericRegex v
      | VName \<Rightarrow> test nameRegex v)"

text \<open>
  The rules of one field.  \<open>type\<close> names one of the four validators or is absent;
  a length that is absent or \<open>0\<close> is falsy, and its check is skipped.
\<close>

record fieldRules =
  required :: bool
  type :: "validatorName option"
  minLength :: "nat option"
  maxLength :: "nat option"

text \<open>The decimal digits of a number, as a template literal prints it.\<close>

function show_nat :: "nat \<Rightarrow> string" where
  "show_nat n =
     (if n < 10 then [''0123456789'' ! n]
      else show_nat (n div 10) @ [''0123456789'' ! (n mod 10)])"
  by pat_completeness auto
termination
  by (relation "measure id") auto

declare show_nat.simps [simp del]

text \<open>
  The four conditions of the loop of \<open>createValidator\<close> on the value \<open>req.body[field]\<close>,
  a string or \<open>undefined\<close>: a value is falsy when it is \<open>undefined\<close> or empty.
\<close>

definition requiredFails :: "fieldRules \<Rightarrow> string option \<Rightarrow> bool" where
  "requiredFails rules v =
     (required rules \<and> (case v of None \<Rightarrow> True | Some s \<Rightarrow> s = [] \<or> trim s = []))"

definition formatFails :: "fieldRules \<Rightarrow> string option \<Rightarrow> bool" where
  "formatFails rules v =
     (case v of
        None \<Rightarrow> False
      | Some s \<Rightarrow> s \<noteq> [] \<and> (case type rules of None \<Rightarrow> False | Some t \<Rightarrow> \<not> validators t s))"

definition tooShort :: "fieldRules \<Rightarrow> string option \<Rightarrow> bool" where
  "tooShort rules v =
     (case v of
        None \<Rightarrow> False
      | Some s \<Rightarrow> s \<noteq> [] \<and>
          (case minLength rules of None \<Rightarrow> False | Some n \<Rightarrow> n \<noteq> 0 \<and> length s < n))"

definition tooLong :: "fieldRules \<Rightarrow> string option \<Rightarrow> bool" where
  "tooLong rules v =
     (case v of
        None \<Rightarrow> False
      | Some s \<Rightarrow> s \<noteq> [] \<and>
          (case maxLength rules of None \<Rightarrow> False | Some n \<Rightarrow> n \<noteq> 0 \<and> length s > n))"

definition number_of :: "nat option \<Rightarrow> string" where
  "number_of n = (case n of None \<Rightarrow> ''undefined'' | Some k \<Rightarrow> show_nat k)"

text \<open>
  The loop over \<open>Object.entries(validationRules)\<close>, with the array \<open>errors\<close> as
  accumulator; the \<open>continue\<close> after the required violation skips the other checks of
  the field.
\<close>

fun validateFields ::
  "(string \<rightharpoonup> string) \<Rightarrow> (string \<times> fieldRules) list \<Rightarrow> string list \<Rightarrow> string list" where
  "validateFields body [] errors = errors"
| "validateFields body ((field, rules) # rest) errors =
     (let v = body field
      in if requiredFails rules v
         then validateFields body rest (errors @ [field @ '' is required''])
         else
           (let errors1 = (if formatFails rules v
                           then errors @ [field @ '' has invalid format'']
                           else errors);
                errors2 = (if tooShort rules v
                           then errors1 @ [field @ '' must be at least ''
                                  @ number_of (minLength rules) @ '' characters'']
                           else errors1);
                errors3 = (if tooLong rules v
                           then errors2 @ [field @ '' must be no more than ''
                                  @ number_of (maxLength rules) @ '' characters'']
                           else errors2)
            in validateFields body rest errors3))"

datatype validatorResult = Continue | Status400 "string list"

definition createValidator ::
  "(string \<times> fieldRules) list \<Rightarrow> (string \<rightharpoonup> string) \<Rightarrow> validatorResult" where
  "createValidator validationRules body =
     (let errors = validateFields body validationRules []
      in if length errors > 0 then Status400 errors else Continue)"

text \<open>
  The rule set of the example, \<open>{name: {required: true, minLength: 2}}\<close>, and the one of
  the contact form of the routes.
\<close>

definition nameRules :: "(string \<times> fieldRules) list" where
  "nameRules = [(''name'', \<lparr>required = True, type = None, minLength = Some 2, maxLength = None\<rparr>)]"

definition contactValidation :: "(string \<times> fieldRules) list" where
  "contactValidation =
     [(''name'', \<lparr>required = True, type = Some VName, minLength = Some 2, maxLength = Some 50\<rparr>),
      (''email'', \<lparr>required = True, type = Some VEmail, minLength = None, maxLength = None\<rparr>),
      (''message'', \<lparr>required = True, type = None, minLength = Some 10, maxLength = Some 1000\<rparr>)]"

text \<open>
  A rule set whose three later checks can fail together: no string is at least 3 and
  at most 1 characters long.
\<close>

definition nickRules :: "(string \<times> fieldRules) list" where
  "nickRules =
     [(''nick'', \<lparr>required = True, type = Some VAlphanumeric, minLength = Some 3,
         maxLength = Some 1\<rparr>)]"

text \<open>
  The violations of one field, in the order of the checks: the required check alone
  when it fails, otherwise format, then minimum length, then maximum length.
\<close>

definition fieldErrors :: "string \<Rightarrow> fieldRules \<Rightarrow> string option \<Rightarrow> string list" where
  "fieldErrors field rules v =
     (if requiredFails rules v then [field @ '' is required'']
      else (if formatFails rules v then [field @ '' has invalid format''] else [])
         @ (if tooShort rules v
            then [field @ '' must be at least '' @ number_of (minLength rules) @ '' characters'']
            else [])
         @ (if tooLong rules v
            then [field @ '' must be no more than '' @ number_of (maxLength rules)
                    @ '' characters'']
            else []))"

section \<open>Properties\<close>

subsection \<open>middleware/rateLimiter.js\<close>

lemma filter_length_bound:
  "int (length xs) \<le> m \<Longrightarrow> int (length (filter P xs)) \<le> m"
  using length_filter_le [of P xs] by linarith

lemma bounded_cleanup: "bounded cfg store \<Longrightarrow> bounded cfg (cleanupOldEntries cfg store now2)"
  by (auto simp: bounded_def cleanupOldEntries_def Let_def split: option.splits if_splits)

lemma bounded_step:
  assumes "bounded cfg store" and "0 \<le> maxRequests cfg"
  shows "bounded cfg (snd (rateLimiter cfg store req now sweep now2))"
proof -
  let ?kept = "filter (\<lambda>t. now - windowMs cfg < t)
     (requests (case store (clientKey req) of
        None \<Rightarrow> \<lparr>requests = [], count = 0, resetTime = now + windowMs cfg\<rparr> | Some d \<Rightarrow> d))"
  show ?thesis
  proof (cases "maxRequests cfg \<le> int (length ?kept)")
    case True
    then have "snd (rateLimiter cfg store req now sweep now2) =
      store(clientKey req \<mapsto> (case store (clientKey req) of
        None \<Rightarrow> \<lparr>requests = [], count = 0, resetTime = now + windowMs cfg\<rparr> | Some d \<Rightarrow> d)
        \<lparr>requests := ?kept, count := int (length ?kept)\<rparr>)"
      by (simp add: rateLimiter_def Let_def)
    moreover have "int (length ?kept) \<le> maxRequests cfg"
      using assms by (auto simp: bounded_def split: option.splits intro: filter_length_bound)
    ultimately show ?thesis using assms by (auto simp: bounded_def)
  next
    case False
    let ?st = "store(clientKey req \<mapsto> (case store (clientKey req) of
        None \<Rightarrow> \<lparr>requests = [], count = 0, resetTime = now + windowMs cfg\<rparr> | Some d \<Rightarrow> d)
        \<lparr>requests := ?kept @ [now], count := int (length (?kept @ [now]))\<rparr>)"
    have b: "bounded cfg ?st" using assms False by (auto simp: bounded_def)
    have "snd (rateLimiter cfg store req now sweep now2) =
       (if sweep then cleanupOldEntries cfg ?st now2 else ?st)"
      using False by (simp add: rateLimiter_def Let_def)
    then show ?thesis using b bounded_cleanup by simp
  qed
qed

lemma bounded_run:
  "bounded cfg store \<Longrightarrow> 0 \<le> maxRequests cfg \<Longrightarrow> bounded cfg (run cfg store calls)"
  by (induction calls arbitrary: store) (auto simp: bounded_step)

lemma bounded_empty: "bounded cfg Map.empty"
  by (simp add: bounded_def)

lemma bounded_requests_of:
  "bounded cfg store \<Longrightarrow> 0 \<le> maxRequests cfg \<Longrightarrow> int (length (requests_of store k)) \<le> maxRequests cfg"
  by (auto simp: bounded_def requests_of_def split: option.splits)

lemma denied_when_full:
  "maxRequests cfg \<le> int (length (filter (\<lambda>t. now - windowMs cfg < t) (requests_of store (clientKey req))))
   \<Longrightarrow> is_denied (fst (rateLimiter cfg store req now sweep now2))"
  by (auto simp: rateLimiter_def Let_def is_denied_def requests_of_def split: option.splits)

lemma fold_max_less: "fold max ts t < (c::int) \<Longrightarrow> t < c \<and> (\<forall>x\<in>set ts. x < c)"
proof (induction ts arbitrary: t)
  case Nil
  then show ?case by simp
next
  case (Cons a ts)
  from Cons.prems have "fold max ts (max a t) < c" by simp
  from Cons.IH [OF this] show ?case by auto
qed

lemma stale_filter:
  assumes "stale d cutoff" and "cutoff \<le> w"
  shows "filter (\<lambda>t. w < t) (requests d) = []"
proof (cases "requests d")
  case Nil
  then show ?thesis by simp
next
  case (Cons t ts)
  with assms(1) have "fold max ts t < cutoff" by (simp add: stale_def)
  from fold_max_less [OF this] assms(2) Cons show ?thesis
    by (auto simp: filter_empty_conv)
qed

lemma cleanup_window:
  assumes "now2 - windowMs cfg \<le> w"
  shows "filter (\<lambda>t. w < t) (requests_of (cleanupOldEntries cfg store now2) k)
       = filter (\<lambda>t. w < t) (requests_of store k)"
proof (cases "store k")
  case None
  then show ?thesis by (simp add: requests_of_def cleanupOldEntries_def)
next
  case (Some d)
  show ?thesis
  proof (cases "stale d (now2 - windowMs cfg)")
    case True
    from stale_filter [OF True assms] Some True show ?thesis
      by (simp add: requests_of_def cleanupOldEntries_def)
  next
    case False
    with Some show ?thesis by (simp add: requests_of_def cleanupOldEntries_def)
  qed
qed

lemma filter_filter_window:
  "(v::int) \<le> w \<Longrightarrow> filter (\<lambda>t. w < t) (filter (\<lambda>t. v < t) xs) = filter (\<lambda>t. w < t) xs"
  by (induction xs) auto

lemma step_window:
  assumes "now - windowMs cfg \<le> w" and "sweep \<Longrightarrow> now2 - windowMs cfg \<le> w"
  shows "filter (\<lambda>t. w < t) (requests_of (snd (rateLimiter cfg store req now sweep now2)) k)
       = filter (\<lambda>t. w < t) (requests_of store k @
           (if clientKey req = k \<and> \<not> is_denied (fst (rateLimiter cfg store req now sweep now2))
            then [now] else []))"
proof -
  let ?d0 = "case store (clientKey req) of
        None \<Rightarrow> \<lparr>requests = [], count = 0, resetTime = now + windowMs cfg\<rparr> | Some d \<Rightarrow> d"
  let ?kept = "filter (\<lambda>t. now - windowMs cfg < t) (requests ?d0)"
  have r0: "requests ?d0 = requests_of store (clientKey req)"
    by (simp add: requests_of_def split: option.splits)
  show ?thesis
  proof (cases "maxRequests cfg \<le> int (length ?kept)")
    case True
    then have s: "snd (rateLimiter cfg store req now sweep now2) =
      store(clientKey req \<mapsto> ?d0\<lparr>requests := ?kept, count := int (length ?kept)\<rparr>)"
      and d: "is_denied (fst (rateLimiter cfg store req now sweep now2))"
      by (simp_all add: rateLimiter_def Let_def is_denied_def)
    show ?thesis
      unfolding s using d r0 filter_filter_window [OF assms(1)]
      by (simp add: requests_of_def)
  next
    case False
    let ?st = "store(clientKey req \<mapsto>
        ?d0\<lparr>requests := ?kept @ [now], count := int (length (?kept @ [now]))\<rparr>)"
    from False have s: "snd (rateLimiter cfg store req now sweep now2) =
       (if sweep then cleanupOldEntries cfg ?st now2 else ?st)"
      and d: "\<not> is_denied (fst (rateLimiter cfg store req now sweep now2))"
      by (simp_all add: rateLimiter_def Let_def is_denied_def)
    have "filter (\<lambda>t. w < t) (requests_of (snd (rateLimiter cfg store req now sweep now2)) k)
        = filter (\<lambda>t. w < t) (requests_of ?st k)"
      unfolding s using cleanup_window assms(2) by simp
    also have "\<dots> = filter (\<lambda>t. w < t) (requests_of store k @ (if clientKey req = k then [now] else []))"
      using r0 filter_filter_window [OF assms(1)] by (simp add: requests_of_def)
    finally show ?thesis using d by simp
  qed
qed

lemma end_clock_ge: "clock_ok t calls \<Longrightarrow> t \<le> end_clock t calls"
proof (induction t calls rule: end_clock.induct)
  case (1 t)
  then show ?case by simp
next
  case (2 t req now sweep now2 cs)
  then show ?case by (cases sweep) auto
qed

text \<open>
  On a clock that never goes back, the timestamps retained in any window that reaches
  the end of the run are the admissions of the run in that window: the purge and the
  sweep remove only what has left it.
\<close>

lemma run_window:
  "clock_ok t0 calls \<Longrightarrow> end_clock t0 calls - windowMs cfg \<le> w \<Longrightarrow>
   filter (\<lambda>t. w < t) (requests_of (run cfg store calls) k)
     = filter (\<lambda>t. w < t) (requests_of store k @ admitted cfg store calls k)"
proof (induction calls arbitrary: store t0)
  case Nil
  then show ?case by simp
next
  case (Cons c cs)
  obtain req now sweep now2 where c: "c = (req, now, sweep, now2)" by (cases c) auto
  let ?t1 = "if sweep then now2 else now"
  let ?st = "snd (rateLimiter cfg store req now sweep now2)"
  from Cons.prems c have ok: "clock_ok ?t1 cs" and le: "now \<le> ?t1"
    and w: "end_clock ?t1 cs - windowMs cfg \<le> w"
    by (auto split: if_splits)
  from end_clock_ge [OF ok] w have w1: "?t1 - windowMs cfg \<le> w" by linarith
  with le have wn: "now - windowMs cfg \<le> w" by linarith
  from w1 have ws: "sweep \<Longrightarrow> now2 - windowMs cfg \<le> w" by simp
  have "filter (\<lambda>t. w < t) (requests_of (run cfg store (c # cs)) k)
      = filter (\<lambda>t. w < t) (requests_of ?st k @ admitted cfg ?st cs k)"
    using Cons.IH [OF ok w] c by simp
  also have "\<dots> = filter (\<lambda>t. w < t) (requests_of ?st k) @ filter (\<lambda>t. w < t) (admitted cfg ?st cs k)"
    by simp
  also have "\<dots> = filter (\<lambda>t. w < t) (requests_of store k @
           (if clientKey req = k \<and> \<not> is_denied (fst (rateLimiter cfg store req now sweep now2))
            then [now] else [])) @ filter (\<lambda>t. w < t) (admitted cfg ?st cs k)"
    by (simp only: step_window [OF wn ws])
  also have "\<dots> = filter (\<lambda>t. w < t) (requests_of store k @ admitted cfg store (c # cs) k)"
    unfolding c by simp
  finally show ?case .
qed

lemma clock_ok_snoc:
  "clock_ok t0 (calls @ [(req, now, sweep, now2)]) \<Longrightarrow> clock_ok t0 calls \<and> end_clock t0 calls \<le> now"
proof (induction t0 calls rule: clock_ok.induct)
  case (1 t)
  then show ?case by simp
next
  case (2 t r n s n2 cs)
  then show ?case by (cases s) auto
qed

lemma next_denied:
  assumes "clock_ok t0 (calls @ [(req, now, sweep, now2)])"
    and "maxRequests cfg \<le> int (length (filter (\<lambda>t. now - windowMs cfg < t)
           (admitted cfg Map.empty calls (clientKey req))))"
  shows "is_denied (fst (rateLimiter cfg (run cfg Map.empty calls) req now sweep now2))"
proof -
  from clock_ok_snoc [OF assms(1)] have ok: "clock_ok t0 calls" and le: "end_clock t0 calls \<le> now"
    by simp_all
  from le have "end_clock t0 calls - windowMs cfg \<le> now - windowMs cfg" by simp
  from run_window [OF ok this, where store = Map.empty and k = "clientKey req"]
  have "filter (\<lambda>t. now - windowMs cfg < t) (requests_of (run cfg Map.empty calls) (clientKey req))
      = filter (\<lambda>t. now - windowMs cfg < t) (admitted cfg Map.empty calls (clientKey req))"
    by (simp add: requests_of_def)
  with assms(2) show ?thesis by (simp add: denied_when_full)
qed

lemma rateLimiter_denial_retryAfter:
  "fst (rateLimiter cfg store req now sweep now2) = Status429 h d \<Longrightarrow> retryAfter d = 0"
  by (auto simp: rateLimiter_def Let_def ceil_div_def split: if_splits)

lemma filter_replicate_gt:
  "filter (\<lambda>t. c < t) (replicate n (x::int)) = (if c < x then replicate n x else [])"
  by (induction n) auto

lemma probe_key: "clientKey probe = Some ''10.0.0.9''"
  by (simp add: clientKey_def probe_def js_or_def truthy_def)

text \<open>
  Claim C1 says that every denial carries a \<open>retryAfterSeconds\<close> that is strictly
  positive and equals the time until the oldest retained timestamp leaves the window.
  The code computes \<open>Math.ceil((windowStart + windowMs - now) / 1000)\<close> with
  \<open>windowStart = now - windowMs\<close>, which is \<open>0\<close> on every denial.  With the default
  configuration, a client holding 1000 timestamps at instant 5000 and calling again at
  instant 6000 is denied with \<open>retryAfter = 0\<close>, while its oldest timestamp leaves the
  window only 599 seconds later.
\<close>

theorem C1_denial_retryAfter_is_zero:
  "fst (rateLimiter RATE_LIMIT_CONFIG
     [Some ''10.0.0.9'' \<mapsto> \<lparr>requests = replicate 1000 5000, count = 1000, resetTime = 605000\<rparr>]
     probe 6000 False 6000)
   = Status429 \<lparr>xRateLimitLimit = 1000, xRateLimitRemaining = 0, xRateLimitReset = 6000,
        retryAfterHeader = Some 0\<rparr> \<lparr>retryAfter = 0, limitD = 1000, windowMsD = 600000\<rparr>
   \<and> ceil_div (5000 + windowMs RATE_LIMIT_CONFIG - 6000) 1000 = 599"
  by (simp add: rateLimiter_def Let_def ceil_div_def RATE_LIMIT_CONFIG_def probe_key
      filter_replicate_gt)

text \<open>
  Claim C2: for every key and every sequence of calls of the limiter from the empty
  store, the timestamps retained for the key (all of them, hence those of any window)
  never number more than \<open>maxRequests\<close>; a request that finds \<open>maxRequests\<close>
  timestamps retained within the window is denied; and so, on a clock that never goes
  back, is a request that follows \<open>maxRequests\<close> admissions of its key within the window.
\<close>

theorem C2_retained_never_exceed_maxRequests:
  "(0 \<le> maxRequests cfg \<longrightarrow>
      int (length (requests_of (run cfg Map.empty calls) k)) \<le> maxRequests cfg
      \<and> int (length (filter (\<lambda>t. lo < t \<and> t \<le> hi) (requests_of (run cfg Map.empty calls) k)))
          \<le> maxRequests cfg)
   \<and> (maxRequests cfg
         \<le> int (length (filter (\<lambda>t. now - windowMs cfg < t) (requests_of store (clientKey req))))
       \<longrightarrow> is_denied (fst (rateLimiter cfg store req now sweep now2)))
   \<and> (clock_ok t0 (calls @ [(req, now, sweep, now2)])
       \<and> maxRequests cfg
           \<le> int (length (filter (\<lambda>t. now - windowMs cfg < t)
                 (admitted cfg Map.empty calls (clientKey req))))
       \<longrightarrow> is_denied (fst (rateLimiter cfg (run cfg Map.empty calls) req now sweep now2)))"
proof (intro conjI impI)
  assume m: "0 \<le> maxRequests cfg"
  have b: "bounded cfg (run cfg Map.empty calls)"
    using bounded_run [OF bounded_empty m] .
  show "int (length (requests_of (run cfg Map.empty calls) k)) \<le> maxRequests cfg"
    using bounded_requests_of [OF b m] .
  then show "int (length (filter (\<lambda>t. lo < t \<and> t \<le> hi) (requests_of (run cfg Map.empty calls) k)))
      \<le> maxRequests cfg"
    by (rule filter_length_bound)
next
  assume "maxRequests cfg
    \<le> int (length (filter (\<lambda>t. now - windowMs cfg < t) (requests_of store (clientKey req))))"
  then show "is_denied (fst (rateLimiter cfg store req now sweep now2))"
    by (rule denied_when_full)
next
  assume "clock_ok t0 (calls @ [(req, now, sweep, now2)])
       \<and> maxRequests cfg
           \<le> int (length (filter (\<lambda>t. now - windowMs cfg < t)
                 (admitted cfg Map.empty calls (clientKey req))))"
  then show "is_denied (fst (rateLimiter cfg (run cfg Map.empty calls) req now sweep now2))"
    using next_denied by blast
qed

lemma small_run:
  "run smallConfig Map.empty [(probe, 100, False, 100), (probe, 200, True, 250)]
     = [Some ''10.0.0.9'' \<mapsto> \<lparr>requests = [100, 200], count = 2, resetTime = 1100\<rparr>]"
  by (simp add: rateLimiter_def Let_def smallConfig_def probe_key cleanupOldEntries_def stale_def
      fun_eq_iff)

lemma small_admitted:
  "admitted smallConfig Map.empty [(probe, 100, False, 100), (probe, 200, True, 250)]
     (Some ''10.0.0.9'') = [100, 200]"
  by (simp add: rateLimiter_def Let_def smallConfig_def probe_key cleanupOldEntries_def stale_def
      is_denied_def)

theorem C2_retained_never_exceed_maxRequests_witness:
  "0 \<le> maxRequests smallConfig
   \<and> requests_of (run smallConfig Map.empty [(probe, 100, False, 100), (probe, 200, True, 250)])
        (Some ''10.0.0.9'') = [100, 200]
   \<and> maxRequests smallConfig = 2
   \<and> clock_ok 0 ([(probe, 100, False, 100), (probe, 200, True, 250)] @ [(probe, 300, False, 300)])
   \<and> admitted smallConfig Map.empty [(probe, 100, False, 100), (probe, 200, True, 250)]
        (clientKey probe) = [100, 200]
   \<and> is_denied (fst (rateLimiter smallConfig
        (run smallConfig Map.empty [(probe, 100, False, 100), (probe, 200, True, 250)])
        probe 300 False 300))"
proof -
  let ?calls = "[(probe, 100, False, 100), (probe, 200, True, 250)]"
  have m: "0 \<le> maxRequests smallConfig" and m2: "maxRequests smallConfig = 2"
    by (simp_all add: smallConfig_def)
  have r: "requests_of (run smallConfig Map.empty ?calls) (Some ''10.0.0.9'') = [100, 200]"
    unfolding small_run by (simp add: requests_of_def)
  have c: "clock_ok 0 (?calls @ [(probe, 300, False, 300)])"
    by simp
  have a: "admitted smallConfig Map.empty ?calls (clientKey probe) = [100, 200]"
    unfolding probe_key small_admitted by simp
  have w: "windowMs smallConfig = 1000"
    by (simp add: smallConfig_def)
  from C2_retained_never_exceed_maxRequests
    [of smallConfig ?calls "Some ''10.0.0.9''" 0 300 300
        "run smallConfig Map.empty ?calls" probe False 300 0] c
  have "is_denied (fst (rateLimiter smallConfig (run smallConfig Map.empty ?calls)
      probe 300 False 300))"
    unfolding a m2 w by simp
  with m m2 r c a show ?thesis by simp
qed

text \<open>
  Claim C9: a denied request is not recorded.  After a denial the record of the caller's
  key holds exactly the timestamps it held before the call that are still within the
  window, and no other record has changed.
\<close>

theorem C9_denied_request_not_recorded:
  "is_denied (fst (rateLimiter cfg store req now sweep now2)) \<Longrightarrow>
   requests_of (snd (rateLimiter cfg store req now sweep now2)) (clientKey req)
     = filter (\<lambda>t. now - windowMs cfg < t) (requests_of store (clientKey req))
   \<and> (\<forall>k. k \<noteq> clientKey req \<longrightarrow> snd (rateLimiter cfg store req now sweep now2) k = store k)"
  by (auto simp: rateLimiter_def Let_def is_denied_def requests_of_def
      split: if_splits option.splits)

lemma small_denied:
  "is_denied (fst (rateLimiter smallConfig
      [Some ''10.0.0.9'' \<mapsto> \<lparr>requests = [100, 1200, 1300], count = 3, resetTime = 1100\<rparr>]
      probe 1500 True 1500))"
  by (simp add: rateLimiter_def Let_def smallConfig_def probe_key is_denied_def)

theorem C9_denied_request_not_recorded_witness:
  "is_denied (fst (rateLimiter smallConfig
      [Some ''10.0.0.9'' \<mapsto> \<lparr>requests = [100, 1200, 1300], count = 3, resetTime = 1100\<rparr>]
      probe 1500 True 1500))
   \<and> requests_of (snd (rateLimiter smallConfig
      [Some ''10.0.0.9'' \<mapsto> \<lparr>requests = [100, 1200, 1300], count = 3, resetTime = 1100\<rparr>]
      probe 1500 True 1500)) (Some ''10.0.0.9'') = [1200, 1300]"
  using C9_denied_request_not_recorded [OF small_denied] small_denied
  by (simp add: probe_key smallConfig_def requests_of_def)

subsection \<open>middleware/ipBlacklist.js\<close>

lemmas regex_defs = ipv4Regex_def ipv6Regex_def range_rep_def Plus_def chr_def test_def digit_def
  eval_nat_numeral

lemma mapped_not_ipv4: "\<not> test ipv4Regex ''::ffff:127.0.0.1''"
  by (simp add: regex_defs)

lemma mapped_not_ipv6: "\<not> test ipv6Regex ''::ffff:127.0.0.1''"
  by (simp add: regex_defs)

lemma localhost_ipv4: "test ipv4Regex ''127.0.0.1''"
  by (simp add: regex_defs)

text \<open>
  Claim C3, as stated, fails on the second half: the whitelisted address
  \<open>::ffff:127.0.0.1\<close> contains dots, so it matches neither pattern of
  \<open>addToBlacklist\<close>, whose format check runs before the whitelist check.  The call
  throws the format error, not the whitelist conflict.
\<close>

theorem C3_counterexample:
  "''::ffff:127.0.0.1'' \<in> whitelistedIPs initialGuard
   \<and> addToBlacklist initialGuard ''::ffff:127.0.0.1'' = (Inl InvalidAddressFormat, initialGuard)
   \<and> fst (addToBlacklist initialGuard ''::ffff:127.0.0.1'') \<noteq> Inl WhitelistConflict"
  by (simp add: addToBlacklist_def mapped_not_ipv4 mapped_not_ipv6 initialGuard_def)

text \<open>
  Claim C3, amended: a request whose client address is whitelisted passes the guard
  whatever the blacklist holds; \<open>addToBlacklist\<close> of a whitelisted address always
  throws and leaves both sets as they were, and the error is the whitelist conflict
  exactly when the address is non-empty and passes the format check (the address error
  for the empty string, the format error otherwise).
\<close>

theorem C3_whitelist_overrides:
  "a \<in> whitelistedIPs g \<Longrightarrow>
   (getClientIP req = a \<longrightarrow> ipBlacklist g req = Pass)
   \<and> snd (addToBlacklist g a) = g
   \<and> fst (addToBlacklist g a) =
       Inl (if a = [] then InvalidAddress
            else if \<not> test ipv4Regex a \<and> \<not> test ipv6Regex a then InvalidAddressFormat
            else WhitelistConflict)"
  by (simp add: ipBlacklist_def addToBlacklist_def)

lemma localRequest_ip: "getClientIP localRequest = ''127.0.0.1''"
  by (simp add: getClientIP_def localRequest_def js_or_def truthy_def)

theorem C3_whitelist_overrides_witness:
  "''127.0.0.1'' \<in> whitelistedIPs (initialGuard\<lparr>blacklistedIPs := {''127.0.0.1''}\<rparr>)
   \<and> getClientIP localRequest = ''127.0.0.1''
   \<and> ipBlacklist (initialGuard\<lparr>blacklistedIPs := {''127.0.0.1''}\<rparr>) localRequest = Pass
   \<and> addToBlacklist (initialGuard\<lparr>blacklistedIPs := {''127.0.0.1''}\<rparr>) ''127.0.0.1''
       = (Inl WhitelistConflict, initialGuard\<lparr>blacklistedIPs := {''127.0.0.1''}\<rparr>)"
proof -
  have w: "''127.0.0.1'' \<in> whitelistedIPs (initialGuard\<lparr>blacklistedIPs := {''127.0.0.1''}\<rparr>)"
    by (simp add: initialGuard_def)
  from C3_whitelist_overrides [OF w, of localRequest] w localRequest_ip localhost_ipv4
  show ?thesis by (simp add: prod_eq_iff)
qed

text \<open>
  Claim C7, as stated, fails: \<open>removeFromBlacklist\<close> has no format check.  The string
  \<open>not-an-ip\<close> matches neither pattern, and the call returns \<open>false\<close> without an error.
\<close>

theorem C7_counterexample:
  "\<not> test ipv4Regex ''not-an-ip'' \<and> \<not> test ipv6Regex ''not-an-ip''
   \<and> removeFromBlacklist initialGuard ''not-an-ip'' = (Inr False, initialGuard)"
  by (simp add: regex_defs removeFromBlacklist_def initialGuard_def)

text \<open>
  Claim C7, amended: \<open>removeFromBlacklist\<close> throws (the address error) for the empty
  string only; for every other string, well-formed or not, it deletes the string from
  the blacklist and returns whether the blacklist has changed, that is, whether an entry
  was removed.
\<close>

theorem C7_removeFromBlacklist_result:
  "removeFromBlacklist g a =
     (if a = [] then (Inl InvalidAddress, g)
      else (Inr (a \<in> blacklistedIPs g), g\<lparr>blacklistedIPs := blacklistedIPs g - {a}\<rparr>))
   \<and> (a \<noteq> [] \<longrightarrow>
        fst (removeFromBlacklist g a)
          = Inr (blacklistedIPs (snd (removeFromBlacklist g a)) \<noteq> blacklistedIPs g))"
  by (auto simp: removeFromBlacklist_def Let_def)

theorem C7_removeFromBlacklist_result_witness:
  "removeFromBlacklist initialGuard ''10.0.0.5''
     = (Inr True, initialGuard\<lparr>blacklistedIPs := {''192.168.1.100'', ''127.0.0.2''}\<rparr>)
   \<and> removeFromBlacklist initialGuard ''10.0.0.6'' = (Inr False, initialGuard)
   \<and> removeFromBlacklist initialGuard [] = (Inl InvalidAddress, initialGuard)"
  using C7_removeFromBlacklist_result [of initialGuard "''10.0.0.5''"]
    C7_removeFromBlacklist_result [of initialGuard "''10.0.0.6''"]
    C7_removeFromBlacklist_result [of initialGuard "[]"]
  by (auto simp: initialGuard_def)

lemma split_first: "\<exists>ps. split sep s = takeWhile (\<lambda>c. c \<noteq> sep) s # ps"
  by (induction s) auto

lemma forwardedFirst_eq:
  "forwardedFirst req
     = map_option (\<lambda>h. trim (takeWhile (\<lambda>c. c \<noteq> CHR '','') h)) (xForwardedFor req)"
proof (cases "xForwardedFor req")
  case None
  then show ?thesis by (simp add: forwardedFirst_def)
next
  case (Some h)
  obtain ps where "split CHR '','' h = takeWhile (\<lambda>c. c \<noteq> CHR '','') h # ps"
    using split_first by blast
  with Some show ?thesis by (simp add: forwardedFirst_def)
qed

lemma truthy_the: "truthy a \<Longrightarrow> a = Some (the a)"
  by (cases a) (simp_all add: truthy_def)

text \<open>
  Claim C8: the client key is the first available value (present and not the empty
  string, as \<open>||\<close> decides) among: \<open>req.ip\<close>; the text before the first comma of the
  forwarded-for header, trimmed; the real-IP header; the peer address of the
  connection, read from \<open>req.connection\<close>, then \<open>req.socket\<close>, then
  \<open>req.connection.socket\<close>; and it is \<open>0.0.0.0\<close> when none is available.
\<close>

theorem C8_getClientIP_precedence:
  "getClientIP req =
     (if truthy (ip req) then the (ip req)
      else if truthy (map_option (\<lambda>h. trim (takeWhile (\<lambda>c. c \<noteq> CHR '','') h)) (xForwardedFor req))
        then trim (takeWhile (\<lambda>c. c \<noteq> CHR '','') (the (xForwardedFor req)))
      else if truthy (xRealIp req) then the (xRealIp req)
      else if truthy (connectionRemoteAddress req) then the (connectionRemoteAddress req)
      else if truthy (socketRemoteAddress req) then the (socketRemoteAddress req)
      else if truthy (connectionSocketRemoteAddress req)
        then the (connectionSocketRemoteAddress req)
      else ''0.0.0.0'')"
proof -
  let ?f = "map_option (\<lambda>h. trim (takeWhile (\<lambda>c. c \<noteq> CHR '','') h)) (xForwardedFor req)"
  have f: "truthy ?f \<Longrightarrow> the ?f = trim (takeWhile (\<lambda>c. c \<noteq> CHR '','') (the (xForwardedFor req)))"
    by (cases "xForwardedFor req") (simp_all add: truthy_def)
  have s: "truthy (Some ''0.0.0.0'')"
    by (simp add: truthy_def)
  have t: "\<And>a. truthy a \<Longrightarrow> (case a of None \<Rightarrow> ''0.0.0.0'' | Some x \<Rightarrow> x) = the a"
    by (simp add: truthy_def split: option.splits)
  show ?thesis
    unfolding getClientIP_def forwardedFirst_eq js_or_def
    using f s t by simp
qed

lemma proxied_ip: "getClientIP proxied = ''203.0.113.7''"
  by (simp add: getClientIP_def forwardedFirst_def proxied_def js_or_def truthy_def trim_def
      whitespace_def)

theorem C8_getClientIP_precedence_witness:
  "getClientIP proxied = ''203.0.113.7''
   \<and> getClientIP (proxied\<lparr>xForwardedFor := Some '' , 10.0.0.1''\<rparr>) = ''198.51.100.2''
   \<and> getClientIP (proxied\<lparr>ip := Some ''192.0.2.1''\<rparr>) = ''192.0.2.1''
   \<and> getClientIP (proxied\<lparr>xForwardedFor := None, xRealIp := None\<rparr>) = ''10.0.0.1''
   \<and> getClientIP (proxied\<lparr>xForwardedFor := None, xRealIp := None,
        connectionRemoteAddress := None, socketRemoteAddress := None\<rparr>) = ''0.0.0.0''"
  using C8_getClientIP_precedence [of proxied]
    C8_getClientIP_precedence [of "proxied\<lparr>xForwardedFor := Some '' , 10.0.0.1''\<rparr>"]
    C8_getClientIP_precedence [of "proxied\<lparr>ip := Some ''192.0.2.1''\<rparr>"]
    C8_getClientIP_precedence [of "proxied\<lparr>xForwardedFor := None, xRealIp := None\<rparr>"]
    C8_getClientIP_precedence [of "proxied\<lparr>xForwardedFor := None, xRealIp := None,
        connectionRemoteAddress := None, socketRemoteAddress := None\<rparr>"]
  by (simp add: proxied_def truthy_def trim_def whitespace_def)

subsection \<open>middleware/sanitizer.js\<close>

lemmas sanitize_defs = sanitizeString_def scriptRegex_def handlerRegex_def javascriptRegex_def
  Plus_def chr_def Let_def quote_def word_char_def whitespace_def line_terminator_def
  to_upper_def

lemma ms_lit_ci: "ms (lit_ci w) s = (if starts_ci w s then [drop (length w) s] else [])"
proof (induction w arbitrary: s)
  case Nil
  then show ?case by (simp add: starts_ci_def)
next
  case (Cons a w)
  show ?case
  proof (cases s)
    case Nil
    then show ?thesis by (simp add: starts_ci_def)
  next
    case (Cons c cs)
    then show ?thesis using Cons.IH [of cs] by (auto simp: starts_ci_def)
  qed
qed

lemma replace_all_no_match:
  "(\<And>n. ms r (drop n s) = []) \<Longrightarrow> replace_all r new s = s"
proof (induction s)
  case Nil
  from Nil [of 0] show ?case by simp
next
  case (Cons c cs)
  have "\<And>n. ms r (drop n cs) = []"
    using Cons.prems [of "Suc n" for n] by simp
  then have "replace_all r new cs = cs" by (rule Cons.IH)
  moreover have "ms r (c # cs) = []" using Cons.prems [of 0] by simp
  ultimately show ?case by simp
qed

lemma replace_all_chr:
  "replace_all (chr a) new s = concat (map (\<lambda>c. if c = a then new else [c]) s)"
  by (induction s) (simp_all add: chr_def)

lemma replace_all_chr_absent: "a \<notin> set s \<Longrightarrow> replace_all (chr a) new s = s"
  by (induction s) (auto simp: chr_def)

lemma ms_subset: "t \<in> set (ms r s) \<Longrightarrow> set t \<subseteq> set s"
proof (induction r s arbitrary: t rule: ms.induct)
  case (1 s)
  then show ?case by simp
next
  case (2 s)
  then show ?case by (simp split: if_splits)
next
  case (3 p s)
  then show ?case by (cases s) (auto split: if_splits)
next
  case (4 r1 r2 s)
  from "4.prems" obtain u where u: "u \<in> set (ms r1 s)" and t: "t \<in> set (ms r2 u)"
    by auto
  from "4.IH"(1) [OF u] "4.IH"(2) [OF u t] show ?case by blast
next
  case (5 r s)
  then show ?case by auto
next
  case (6 r s)
  have eq: "ms (Star r) s = concat (map (\<lambda>u. if length u < length s then ms (Star r) u else []) (ms r s)) @ [s]"
    by (rule ms.simps)
  from "6.prems" consider "t = s"
    | u where "u \<in> set (ms r s)" "length u < length s" "t \<in> set (ms (Star r) u)"
    unfolding eq by (auto simp del: ms.simps split: if_splits)
  then show ?case
  proof cases
    case 1
    then show ?thesis by simp
  next
    case 2
    from "6.IH"(1) [OF 2(1)] "6.IH"(2) [OF 2(1) 2(2) 2(3)] show ?thesis by blast
  qed
next
  case (7 r s)
  have eq: "ms (Lazy r) s = s # concat (map (\<lambda>u. if length u < length s then ms (Lazy r) u else []) (ms r s))"
    by (rule ms.simps)
  from "7.prems" consider "t = s"
    | u where "u \<in> set (ms r s)" "length u < length s" "t \<in> set (ms (Lazy r) u)"
    unfolding eq by (auto simp del: ms.simps split: if_splits)
  then show ?case
  proof cases
    case 1
    then show ?thesis by simp
  next
    case 2
    from "7.IH"(1) [OF 2(1)] "7.IH"(2) [OF 2(1) 2(2) 2(3)] show ?thesis by blast
  qed
qed

lemma ms_Seq_empty:
  assumes "\<And>t. set t \<subseteq> set s \<Longrightarrow> ms r2 t = []"
  shows "ms (Seq r1 r2) s = []"
proof -
  have "\<And>u. u \<in> set (ms r1 s) \<Longrightarrow> ms r2 u = []"
    using assms ms_subset by blast
  then show ?thesis by simp
qed

lemma ms_Sym_absent: "\<forall>c\<in>set s. \<not> p c \<Longrightarrow> ms (Seq (Sym p) r) s = []"
  by (cases s) simp_all

lemma to_upper_lt: "to_upper c = CHR ''<'' \<longleftrightarrow> c = CHR ''<''"
  by (auto simp: to_upper_def split: if_splits)

lemma starts_ci_Cons:
  "starts_ci (a # w) s \<Longrightarrow> \<exists>c cs. s = c # cs \<and> to_upper c = to_upper a"
  by (cases s) (auto simp: starts_ci_def)

lemma scriptRegex_no_match:
  assumes "CHR ''<'' \<notin> set s"
  shows "ms scriptRegex (drop n s) = []"
proof -
  have "\<not> starts_ci ''<script'' (drop n s)"
  proof
    assume "starts_ci ''<script'' (drop n s)"
    from starts_ci_Cons [OF this] obtain c cs
      where d: "drop n s = c # cs" and u: "to_upper c = to_upper CHR ''<''"
      by blast
    have "to_upper CHR ''<'' = CHR ''<''" by (simp add: to_upper_def)
    with u have "c = CHR ''<''" by (simp only: to_upper_lt)
    moreover have "c \<in> set (drop n s)" unfolding d by simp
    then have "c \<in> set s" using set_drop_subset [of n s] by blast
    ultimately show False using assms by simp
  qed
  then have "ms (lit_ci ''<script'') (drop n s) = []"
    by (simp only: ms_lit_ci if_False)
  then show ?thesis
    unfolding scriptRegex_def by (simp only: ms.simps(4) list.map concat.simps)
qed

lemma handlerRegex_no_match:
  assumes "\<forall>c\<in>set s. \<not> quote c"
  shows "ms handlerRegex (drop n s) = []"
proof -
  have sub: "\<And>t u. set t \<subseteq> set u \<Longrightarrow> set u \<subseteq> set s \<Longrightarrow> set t \<subseteq> set s"
    by blast
  have q: "\<And>t r. set t \<subseteq> set s \<Longrightarrow> ms (Seq (Sym quote) r) t = []"
    using assms by (intro ms_Sym_absent) blast
  have d: "set (drop n s) \<subseteq> set s" by (rule set_drop_subset)
  show ?thesis
    unfolding handlerRegex_def
    apply (rule ms_Seq_empty)
    apply (rule ms_Seq_empty)
    apply (rule ms_Seq_empty)
    apply (rule ms_Seq_empty)
    apply (rule ms_Seq_empty)
    apply (rule q)
    using d apply blast
    done
qed

lemma occurs_ci_drop: "\<not> occurs_ci (a # w) s \<Longrightarrow> \<not> starts_ci (a # w) (drop n s)"
proof (induction s arbitrary: n)
  case Nil
  then show ?case by (simp add: starts_ci_def)
next
  case (Cons c cs)
  then show ?case by (cases n) simp_all
qed

lemma javascriptRegex_no_match:
  assumes "\<not> occurs_ci ''javascript:'' s"
  shows "ms javascriptRegex (drop n s) = []"
proof -
  from assms have "\<not> starts_ci ''javascript:'' (drop n s)"
    by (rule occurs_ci_drop)
  then show ?thesis
    unfolding javascriptRegex_def by (simp only: ms_lit_ci if_False)
qed

text \<open>A plain string is a fixed point of \<open>sanitizeString\<close>.\<close>

lemma sanitizeString_plain:
  assumes "plain_string s"
  shows "sanitizeString s = s"
proof -
  from assms have m: "\<forall>c\<in>set s. \<not> markup_special c" and j: "\<not> occurs_ci ''javascript:'' s"
    by (simp_all add: plain_string_def list_all_iff)
  from m have lt: "CHR ''<'' \<notin> set s" and gt: "CHR ''>'' \<notin> set s" and amp: "CHR ''&'' \<notin> set s"
    and dq: "CHR 0x22 \<notin> set s" and sq: "CHR 0x27 \<notin> set s" and sl: "CHR ''/'' \<notin> set s"
    by (auto simp: markup_special_def)
  from dq sq have nq: "\<forall>c\<in>set s. \<not> quote c" by (auto simp: quote_def)
  have 1: "replace_all scriptRegex [] s = s"
    by (rule replace_all_no_match) (rule scriptRegex_no_match [OF lt])
  have 2: "replace_all handlerRegex [] s = s"
    by (rule replace_all_no_match) (rule handlerRegex_no_match [OF nq])
  have 3: "replace_all javascriptRegex [] s = s"
    by (rule replace_all_no_match) (rule javascriptRegex_no_match [OF j])
  show ?thesis
    unfolding sanitizeString_def Let_def 1 2 3
    by (simp only: replace_all_chr_absent lt gt amp dq sq sl not_False_eq_True)
qed

lemma assign_fresh: "k \<notin> fst ` set acc \<Longrightarrow> assign acc k v = acc @ [(k, v)]"
  by (induction acc) auto

lemma fold_keeps_entries:
  assumes "\<forall>e\<in>set es. plain_key (fst e) \<and> fst e \<noteq> ''__proto__'' \<and> f (snd e) = snd e"
    and "distinct (map fst acc @ map fst es)"
  shows "fold (\<lambda>e sanitized.
             (let cleanKey = sanitizeString (fst e)
              in if startsWith cleanKey CHR ''$'' \<or> includes_char cleanKey CHR ''.'' \<or> cleanKey \<noteq> fst e
                 then sanitized
                 else set_property sanitized cleanKey (f (snd e))))
           es acc = acc @ es"
  using assms
proof (induction es arbitrary: acc)
  case Nil
  then show ?case by simp
next
  case (Cons e es)
  from Cons.prems(1) have k: "plain_key (fst e)" and p: "fst e \<noteq> ''__proto__''"
    and v: "f (snd e) = snd e"
    by simp_all
  from k have s: "sanitizeString (fst e) = fst e"
    by (simp add: plain_key_def sanitizeString_plain)
  from Cons.prems(2) have fresh: "fst e \<notin> fst ` set acc" by auto
  have step: "(let cleanKey = sanitizeString (fst e)
              in if startsWith cleanKey CHR ''$'' \<or> includes_char cleanKey CHR ''.'' \<or> cleanKey \<noteq> fst e
                 then acc
                 else set_property acc cleanKey (f (snd e))) = acc @ [e]"
    using k p v fresh by (simp add: s Let_def plain_key_def set_property_def assign_fresh)
  have d: "distinct (map fst (acc @ [e]) @ map fst es)"
    using Cons.prems(2) by auto
  have r: "\<forall>e\<in>set es. plain_key (fst e) \<and> fst e \<noteq> ''__proto__'' \<and> f (snd e) = snd e"
    using Cons.prems(1) by simp
  show ?case
    using Cons.IH [OF r d] by (simp only: fold_simps step append_assoc append_Cons append_Nil)
qed

text \<open>
  The round trip of the sanitizer: a plain value without the key \<open>__proto__\<close> comes
  back as it went in.
\<close>

lemma deepSanitize_plain:
  "plain_value v \<Longrightarrow> proto_free v \<Longrightarrow> deepSanitize v = v"
proof (induction v)
  case (JArr items)
  then have "map deepSanitize items = items"
    by (simp add: list_all_iff map_idI)
  then show ?case by simp
next
  case (JObj entries)
  have "\<forall>e\<in>set entries. plain_key (fst e) \<and> fst e \<noteq> ''__proto__''
      \<and> deepSanitize (snd e) = snd e"
  proof
    fix e assume e: "e \<in> set entries"
    obtain k w where kw: "e = (k, w)" by (cases e)
    from JObj.prems e have "plain_key (fst e)" "fst e \<noteq> ''__proto__''"
      "plain_value (snd e)" "proto_free (snd e)"
      by (simp_all add: list_all_iff)
    moreover from this JObj.IH [of e w] e kw have "deepSanitize (snd e) = snd e"
      by simp
    ultimately show "plain_key (fst e) \<and> fst e \<noteq> ''__proto__'' \<and> deepSanitize (snd e) = snd e"
      by simp
  qed
  moreover from JObj.prems have "distinct (map fst [] @ map fst entries)" by simp
  ultimately have "fold (\<lambda>e sanitized.
             (let cleanKey = sanitizeString (fst e)
              in if startsWith cleanKey CHR ''$'' \<or> includes_char cleanKey CHR ''.'' \<or> cleanKey \<noteq> fst e
                 then sanitized
                 else set_property sanitized cleanKey (deepSanitize (snd e))))
           entries [] = [] @ entries"
    by (rule fold_keeps_entries)
  then show ?case by simp
qed (simp_all add: sanitizeString_plain)

lemma replace_chr_removes: "a \<notin> set new \<Longrightarrow> a \<notin> set (replace_all (chr a) new s)"
  by (simp add: replace_all_chr)

lemma replace_chr_preserves:
  "b \<notin> set s \<Longrightarrow> b \<notin> set new \<Longrightarrow> b \<notin> set (replace_all (chr a) new s)"
  by (auto simp: replace_all_chr)

lemma sanitizeString_no_angle:
  "CHR ''<'' \<notin> set (sanitizeString s) \<and> CHR ''>'' \<notin> set (sanitizeString s)"
proof -
  define t where "t = replace_all (chr CHR ''&'') ''&amp;''
    (replace_all javascriptRegex [] (replace_all handlerRegex [] (replace_all scriptRegex [] s)))"
  define u where "u = replace_all (chr CHR ''<'') ''&lt;'' t"
  define v where "v = replace_all (chr CHR ''>'') ''&gt;'' u"
  have s: "sanitizeString s = replace_all (chr CHR ''/'') ''&#x2F;''
           (replace_all (chr CHR 0x27) ''&#x27;'' (replace_all (chr CHR 0x22) ''&quot;'' v))"
    by (simp add: sanitizeString_def Let_def t_def u_def v_def)
  have lu: "CHR ''<'' \<notin> set u"
    unfolding u_def by (rule replace_chr_removes) simp
  then have lv: "CHR ''<'' \<notin> set v"
    unfolding v_def by (rule replace_chr_preserves) simp
  have gv: "CHR ''>'' \<notin> set v"
    unfolding v_def by (rule replace_chr_removes) simp
  from lv have "CHR ''<'' \<notin> set (sanitizeString s)"
    unfolding s by (intro replace_chr_preserves) simp_all
  moreover from gv have "CHR ''>'' \<notin> set (sanitizeString s)"
    unfolding s by (intro replace_chr_preserves) simp_all
  ultimately show ?thesis by simp
qed

lemma sanitize_script: "sanitizeString ''<script>alert(1)</script>'' = []"
  by (simp add: sanitize_defs)

lemma sanitize_where: "sanitizeString ''$where'' = ''$where''"
  by (simp add: sanitize_defs)

lemma sanitize_ab: "sanitizeString ''a.b'' = ''a.b''"
  by (simp add: sanitize_defs)

lemma sanitize_name: "sanitizeString ''name'' = ''name''"
  by (simp add: sanitize_defs)

lemma sanitize_nested: "sanitizeString ''java<script></script>script:x'' = ''x''"
  by (simp add: sanitize_defs)

lemma sanitize_handler_first:
  "sanitizeString (''onjavascript:x='' @ [CHR 0x22, CHR ''1'', CHR 0x22]) = ''onx=&quot;1&quot;''"
  by (simp add: sanitize_defs)

lemma sanitize_handler: "sanitizeString (''<b onclick='' @ [CHR 0x27, CHR ''x'', CHR 0x27] @ ''>'') = ''&lt;b &gt;''"
  by (simp add: sanitize_defs)

lemma sanitize_entities:
  "sanitizeString (''a&b<c>'' @ [CHR 0x22, CHR 0x27] @ ''/'') = ''a&amp;b&lt;c&gt;&quot;&#x27;&#x2F;''"
  by (simp add: sanitize_defs)

lemma sanitize_amp: "sanitizeString ''&'' = ''&amp;''"
  by (simp add: sanitize_defs)

lemma sanitize_amp_twice: "sanitizeString ''&amp;'' = ''&amp;amp;''"
  by (simp add: sanitize_defs)

lemma sanitize_lt: "sanitizeString ''<'' = ''&lt;''"
  by (simp add: sanitize_defs)

lemma sanitize_lt_twice: "sanitizeString ''&lt;'' = ''&amp;lt;''"
  by (simp add: sanitize_defs)

lemma sanitize_handler_spaced:
  "sanitizeString (''<a ONmouseover = '' @ [CHR 0x22] @ ''go()'' @ [CHR 0x22] @ '' id=x>'')
     = ''&lt;a  id=x&gt;''"
  by (simp add: sanitize_defs)

lemma handler_step:
  "replace_all handlerRegex [] (''<b onclick='' @ [CHR 0x27, CHR ''x'', CHR 0x27] @ ''>'') = ''<b >''"
  by (simp add: sanitize_defs)

lemma sanitize_javascript: "sanitizeString ''JaVaScRiPt:alert(1)'' = ''alert(1)''"
  by (simp add: sanitize_defs)

text \<open>
  Claim C4: on the example of the specification the sanitizer drops the keys
  \<open>$where\<close> and \<open>a.b\<close> and maps \<open>name\<close> to the empty string, the script element
  being removed whole; no sanitized string contains \<open><\<close> or \<open>>\<close>; and the string is
  cleaned by removing script spans, then event handlers, then \<open>javascript:\<close>, then
  encoding \<open>&\<close>, \<open><\<close>, \<open>>\<close>, the double quote, the single quote and \<open>/\<close> in that
  order.  The three examples after the equation tell the order apart: a
  \<open>javascript:\<close> put together by the removal of a script span is removed, one that
  separates \<open>on\<close> from a handler assignment is removed too late for the handler rule to
  apply, and the \<open>&\<close> of the entities is not encoded again.  The last four show the
  second and third step at work: the assignments \<open>onclick='x'\<close> and
  \<open>ONmouseover = "go()"\<close> are removed with their quotes before any quote is encoded,
  the handler pattern alone turns \<open><b onclick='x'>\<close> into \<open><b >\<close>, and
  \<open>JaVaScRiPt:\<close> is removed in any case of letters.
\<close>

theorem C4_injection_example:
  "deepSanitize (JObj [(''$where'', JStr ''1==1''), (''a.b'', JNum n),
       (''name'', JStr ''<script>alert(1)</script>'')])
     = JObj [(''name'', JStr [])]
   \<and> sanitizeString ''<script>alert(1)</script>'' = []
   \<and> CHR ''<'' \<notin> set (sanitizeString s) \<and> CHR ''>'' \<notin> set (sanitizeString s)
   \<and> sanitizeString s =
       replace_all (chr CHR ''/'') ''&#x2F;''
         (replace_all (chr CHR 0x27) ''&#x27;''
           (replace_all (chr CHR 0x22) ''&quot;''
             (replace_all (chr CHR ''>'') ''&gt;''
               (replace_all (chr CHR ''<'') ''&lt;''
                 (replace_all (chr CHR ''&'') ''&amp;''
                   (replace_all javascriptRegex []
                     (replace_all handlerRegex []
                       (replace_all scriptRegex [] s))))))))
   \<and> sanitizeString ''java<script></script>script:x'' = ''x''
   \<and> sanitizeString (''onjavascript:x='' @ [CHR 0x22, CHR ''1'', CHR 0x22]) = ''onx=&quot;1&quot;''
   \<and> sanitizeString (''a&b<c>'' @ [CHR 0x22, CHR 0x27] @ ''/'')
       = ''a&amp;b&lt;c&gt;&quot;&#x27;&#x2F;''
   \<and> sanitizeString (''<b onclick='' @ [CHR 0x27, CHR ''x'', CHR 0x27] @ ''>'') = ''&lt;b &gt;''
   \<and> sanitizeString (''<a ONmouseover = '' @ [CHR 0x22] @ ''go()'' @ [CHR 0x22] @ '' id=x>'')
       = ''&lt;a  id=x&gt;''
   \<and> replace_all handlerRegex [] (''<b onclick='' @ [CHR 0x27, CHR ''x'', CHR 0x27] @ ''>'')
       = ''<b >''
   \<and> sanitizeString ''JaVaScRiPt:alert(1)'' = ''alert(1)''"
proof -
  have "deepSanitize (JObj [(''$where'', JStr ''1==1''), (''a.b'', JNum n),
       (''name'', JStr ''<script>alert(1)</script>'')])
     = JObj [(''name'', JStr [])]"
    by (simp add: sanitize_where sanitize_ab sanitize_name sanitize_script startsWith_def
        includes_char_def set_property_def)
  moreover have "sanitizeString s =
       replace_all (chr CHR ''/'') ''&#x2F;''
         (replace_all (chr CHR 0x27) ''&#x27;''
           (replace_all (chr CHR 0x22) ''&quot;''
             (replace_all (chr CHR ''>'') ''&gt;''
               (replace_all (chr CHR ''<'') ''&lt;''
                 (replace_all (chr CHR ''&'') ''&amp;''
                   (replace_all javascriptRegex []
                     (replace_all handlerRegex []
                       (replace_all scriptRegex [] s))))))))"
    by (simp add: sanitizeString_def Let_def)
  ultimately show ?thesis
    using sanitize_script sanitizeString_no_angle [of s] sanitize_nested sanitize_handler_first
      sanitize_entities sanitize_handler sanitize_handler_spaced handler_step sanitize_javascript
    by (simp only: simp_thms)
qed

lemma plain_proto: "plain_string ''__proto__''"
  by (simp add: plain_string_def markup_special_def starts_ci_def to_upper_def)

text \<open>
  Claim C5 says that a value without \<open>$\<close>-keys, dotted keys and markup comes back
  unchanged.  The object \<open>{"__proto__": 1}\<close>, as \<open>JSON.parse\<close> builds it, is such a
  value, and the sanitizer returns the empty object: the assignment
  \<open>sanitized['__proto__'] = ...\<close> creates no property.
\<close>

theorem C5_proto_key_is_lost:
  "plain_value (JObj [(''__proto__'', JNum n)])
   \<and> deepSanitize (JObj [(''__proto__'', JNum n)]) = JObj []
   \<and> deepSanitize (JObj [(''__proto__'', JNum n)]) \<noteq> JObj [(''__proto__'', JNum n)]"
proof -
  have "sanitizeString ''__proto__'' = ''__proto__''"
    using plain_proto by (rule sanitizeString_plain)
  then have "deepSanitize (JObj [(''__proto__'', JNum n)]) = JObj []"
    by (simp add: startsWith_def includes_char_def set_property_def)
  moreover have "plain_value (JObj [(''__proto__'', JNum n)])"
    using plain_proto by (simp add: plain_key_def startsWith_def includes_char_def)
  ultimately show ?thesis by simp
qed

text \<open>
  Claim C10: the string sanitizer is not idempotent.  The \<open>&\<close> that the first pass
  writes for an entity is encoded again by the second pass.
\<close>

theorem C10_sanitizeString_not_idempotent:
  "sanitizeString ''&'' = ''&amp;''
   \<and> sanitizeString (sanitizeString ''&'') = ''&amp;amp;''
   \<and> sanitizeString ''<'' = ''&lt;''
   \<and> sanitizeString (sanitizeString ''<'') = ''&amp;lt;''
   \<and> (\<exists>s. sanitizeString (sanitizeString s) \<noteq> sanitizeString s)"
proof -
  have "sanitizeString (sanitizeString ''&'') \<noteq> sanitizeString ''&''"
    by (simp add: sanitize_amp sanitize_amp_twice)
  then have "\<exists>s. sanitizeString (sanitizeString s) \<noteq> sanitizeString s" ..
  then show ?thesis
    by (simp add: sanitize_amp sanitize_amp_twice sanitize_lt sanitize_lt_twice)
qed

subsection \<open>middleware/sanitizer.js: the field validator\<close>

lemmas validator_defs = requiredFails_def formatFails_def tooShort_def tooLong_def number_of_def
  createValidator_def Let_def trim_def whitespace_def

lemma name_empty: "createValidator nameRules [''name'' \<mapsto> []] = Status400 [''name is required'']"
  by (simp add: validator_defs nameRules_def)

lemma name_short: "createValidator nameRules [''name'' \<mapsto> ''A'']
   = Status400 [''name must be at least 2 characters'']"
  by (simp add: validator_defs nameRules_def show_nat.simps)

lemma validateFields_step:
  "validateFields body ((field, rules) # rest) errors
     = validateFields body rest (errors @ fieldErrors field rules (body field))"
  by (simp add: Let_def fieldErrors_def)

lemma validateFields_acc:
  "validateFields body rs errors = errors @ validateFields body rs []"
proof (induction rs arbitrary: errors)
  case Nil
  then show ?case by simp
next
  case (Cons r rs)
  obtain field rules where r: "r = (field, rules)" by (cases r)
  let ?fe = "fieldErrors field rules (body field)"
  have "validateFields body (r # rs) errors = validateFields body rs (errors @ ?fe)"
    unfolding r by (rule validateFields_step)
  also have "\<dots> = (errors @ ?fe) @ validateFields body rs []"
    by (rule Cons.IH)
  also have "\<dots> = errors @ validateFields body rs ([] @ ?fe)"
    using Cons.IH [of ?fe] by simp
  also have "\<dots> = errors @ validateFields body (r # rs) []"
    unfolding r by (simp only: validateFields_step)
  finally show ?case .
qed

lemma validateFields_concat:
  "validateFields body rs []
     = concat (map (\<lambda>(field, rules). fieldErrors field rules (body field)) rs)"
proof (induction rs)
  case Nil
  then show ?case by simp
next
  case (Cons r rs)
  obtain field rules where r: "r = (field, rules)" by (cases r)
  have "validateFields body (r # rs) []
      = validateFields body rs (fieldErrors field rules (body field))"
    unfolding r by (simp only: validateFields_step append_Nil)
  also have "\<dots> = fieldErrors field rules (body field) @ validateFields body rs []"
    by (rule validateFields_acc)
  finally show ?case using Cons.IH r by simp
qed

lemma contact_example:
  "createValidator contactValidation [''name'' \<mapsto> ''A'', ''email'' \<mapsto> ''bad'']
     = Status400 [''name has invalid format'', ''name must be at least 2 characters'',
         ''email has invalid format'', ''message is required'']"
  by (simp add: validator_defs contactValidation_def show_nat.simps validators_def
      nameRegex_def emailRegex_def range_rep_def Plus_def chr_def test_def eval_nat_numeral)

lemma nick_all_three:
  "createValidator nickRules [''nick'' \<mapsto> ''a_'']
     = Status400 [''nick has invalid format'', ''nick must be at least 3 characters'',
         ''nick must be no more than 1 characters'']"
  by (simp add: validator_defs nickRules_def show_nat.simps validators_def
      alphanumericRegex_def Plus_def chr_def test_def)

lemma nick_required_only:
  "createValidator nickRules [''nick'' \<mapsto> ''  ''] = Status400 [''nick is required'']
   \<and> createValidator nickRules Map.empty = Status400 [''nick is required'']"
  by (simp add: validator_defs nickRules_def)

lemma nick_too_long_only:
  "createValidator nickRules [''nick'' \<mapsto> ''abcd'']
     = Status400 [''nick must be no more than 1 characters'']"
  by (simp add: validator_defs nickRules_def show_nat.simps validators_def
      alphanumericRegex_def Plus_def chr_def test_def)

lemma contact_ok:
  "createValidator contactValidation
     [''name'' \<mapsto> ''Ann Lee'', ''email'' \<mapsto> ''ann@example.org'',
      ''message'' \<mapsto> ''hello world'']
     = Continue"
  by (simp add: validator_defs contactValidation_def show_nat.simps validators_def
      nameRegex_def emailRegex_def range_rep_def Plus_def chr_def test_def eval_nat_numeral)

lemma nick_field_errors:
  "fieldErrors ''nick'' (snd (hd nickRules)) (Some ''a_'')
     = [''nick has invalid format'', ''nick must be at least 3 characters'',
        ''nick must be no more than 1 characters'']"
  by (simp add: fieldErrors_def validator_defs nickRules_def show_nat.simps validators_def
      alphanumericRegex_def Plus_def chr_def test_def)

text \<open>
  Claim C6: with the rule \<open>{name: {required: true, minLength: 2}}\<close> the validator
  reports exactly the required violation for the empty name and exactly the too-short
  violation for the name \<open>A\<close>.  For every rule set and record, the violations are those of
  each field in turn, none lost, and those of one field are the required violation
  alone when that check fails (the later checks are skipped), otherwise the format, the
  too-short and the too-long violation in this order.  With the rule
  \<open>{nick: {required: true, type: 'alphanumeric', minLength: 3, maxLength: 1}}\<close> the
  value \<open>a_\<close> gets the format, the too-short and the too-long violation in this order,
  the value \<open>abcd\<close> the too-long violation alone, and a blank or missing value the
  required violation alone; a record that meets the rules of the contact form passes.
\<close>

theorem C6_validator_violations:
  "createValidator nameRules [''name'' \<mapsto> []] = Status400 [''name is required'']
   \<and> createValidator nameRules [''name'' \<mapsto> ''A'']
       = Status400 [''name must be at least 2 characters'']
   \<and> validateFields body validationRules []
       = concat (map (\<lambda>(field, rules). fieldErrors field rules (body field)) validationRules)
   \<and> validateFields body (validationRules @ further) []
       = validateFields body validationRules [] @ validateFields body further []
   \<and> fieldErrors field rules v =
       (if requiredFails rules v then [field @ '' is required'']
        else (if formatFails rules v then [field @ '' has invalid format''] else [])
           @ (if tooShort rules v
              then [field @ '' must be at least '' @ number_of (minLength rules) @ '' characters'']
              else [])
           @ (if tooLong rules v
              then [field @ '' must be no more than '' @ number_of (maxLength rules)
                      @ '' characters'']
              else []))
   \<and> createValidator validationRules body =
       (if validateFields body validationRules [] = [] then Continue
        else Status400 (validateFields body validationRules []))
   \<and> createValidator nickRules [''nick'' \<mapsto> ''a_'']
       = Status400 [''nick has invalid format'', ''nick must be at least 3 characters'',
           ''nick must be no more than 1 characters'']
   \<and> createValidator nickRules [''nick'' \<mapsto> ''abcd'']
       = Status400 [''nick must be no more than 1 characters'']
   \<and> createValidator nickRules [''nick'' \<mapsto> ''  ''] = Status400 [''nick is required'']
   \<and> createValidator nickRules Map.empty = Status400 [''nick is required'']
   \<and> createValidator contactValidation
         [''name'' \<mapsto> ''Ann Lee'', ''email'' \<mapsto> ''ann@example.org'',
          ''message'' \<mapsto> ''hello world'']
       = Continue"
proof -
  have "validateFields body (validationRules @ further) []
       = validateFields body validationRules [] @ validateFields body further []"
    by (simp add: validateFields_concat)
  moreover have "createValidator validationRules body =
       (if validateFields body validationRules [] = [] then Continue
        else Status400 (validateFields body validationRules []))"
    by (simp add: createValidator_def Let_def)
  ultimately show ?thesis
    using name_empty name_short validateFields_concat [of body validationRules]
      fieldErrors_def [of field rules v] nick_all_three nick_too_long_only nick_required_only
      contact_ok
    by (simp only: simp_thms)
qed

theorem C6_validator_violations_witness:
  "createValidator contactValidation [''name'' \<mapsto> ''A'', ''email'' \<mapsto> ''bad'']
     = Status400 [''name has invalid format'', ''name must be at least 2 characters'',
         ''email has invalid format'', ''message is required'']
   \<and> validateFields [''nick'' \<mapsto> ''a_''] (nickRules @ nickRules) []
       = [''nick has invalid format'', ''nick must be at least 3 characters'',
          ''nick must be no more than 1 characters'',
          ''nick has invalid format'', ''nick must be at least 3 characters'',
          ''nick must be no more than 1 characters'']"
proof -
  have n: "validateFields [''nick'' \<mapsto> ''a_''] nickRules []
       = [''nick has invalid format'', ''nick must be at least 3 characters'',
          ''nick must be no more than 1 characters'']"
    using nick_field_errors
      C6_validator_violations [of "[''nick'' \<mapsto> ''a_'']" nickRules nickRules "''nick''"
        "snd (hd nickRules)" "Some ''a_''"]
    by (simp add: nickRules_def)
  have "validateFields [''nick'' \<mapsto> ''a_''] (nickRules @ nickRules) []
       = validateFields [''nick'' \<mapsto> ''a_''] nickRules []
         @ validateFields [''nick'' \<mapsto> ''a_''] nickRules []"
    using C6_validator_violations [of "[''nick'' \<mapsto> ''a_'']" nickRules nickRules "''nick''"
        "snd (hd nickRules)" "Some ''a_''"]
    by (simp only: simp_thms)
  with n contact_example show ?thesis by simp
qed

end
